theory Spec2Isabelle
  imports Complex_Main "HOL-Library.Product_Lexorder" "HOL-Library.Word"
begin

section \<open>Calendar timestamps\<close>

text \<open>
  The script \<^verbatim>\<open>sarima.py\<close> handles dates as pandas timestamps. The pipeline reads
  only the calendar fields of a timestamp: the month truncation of line 34 discards the
  day and the time of day, and everything after it works on month starts. A timestamp
  is therefore modelled by its calendar date. The range of pandas timestamps is finite;
  the operations that move a timestamp forward (line 51) take the last month that a
  timestamp can hold as a parameter and fail beyond it.
\<close>

record timestamp =
  year :: nat
  month :: nat
  day :: nat

text \<open>The chronological order of timestamps, as the key that sorting compares.\<close>

definition ts_key :: "timestamp \<Rightarrow> nat \<times> nat \<times> nat" where
  "ts_key d = (year d, month d, day d)"

text \<open>A calendar date as \<^verbatim>\<open>pd.to_datetime\<close> can return it.\<close>

definition is_leap :: "nat \<Rightarrow> bool" where
  "is_leap y = (y mod 4 = 0 \<and> (y mod 100 \<noteq> 0 \<or> y mod 400 = 0))"

definition days_in_month :: "nat \<Rightarrow> nat \<Rightarrow> nat" where
  "days_in_month y m =
     (if m = 2 then (if is_leap y then 29 else 28)
      else if m = 4 \<or> m = 6 \<or> m = 9 \<or> m = 11 then 30 else 31)"

definition valid_date :: "timestamp \<Rightarrow> bool" where
  "valid_date d =
     (1 \<le> month d \<and> month d \<le> 12 \<and> 1 \<le> day d \<and> day d \<le> days_in_month (year d) (month d))"

text \<open>
  Line 34, \<^verbatim>\<open>df['ORDERDATE'].dt.to_period('M').dt.to_timestamp()\<close>: the first day of
  the calendar month of the timestamp.
\<close>

definition to_month :: "timestamp \<Rightarrow> timestamp" where
  "to_month d = d\<lparr>day := 1\<rparr>"

text \<open>The number of a calendar month, counted from January of year 0.\<close>

definition month_ord :: "timestamp \<Rightarrow> nat" where
  "month_ord d = year d * 12 + (month d - 1)"

text \<open>A timestamp that is the first day of a calendar month.\<close>

definition is_month_start :: "timestamp \<Rightarrow> bool" where
  "is_month_start d = (day d = 1 \<and> 1 \<le> month d \<and> month d \<le> 12)"

section \<open>Monthly aggregation (lines 32 to 38)\<close>

text \<open>
  A data row is the pair of its \<^verbatim>\<open>ORDERDATE\<close> cell and its \<^verbatim>\<open>SALES\<close> cell; no
  other column is read. The date cell has the type \<open>'c\<close> of whatever the CSV reader
  produced; the lenient parser \<^verbatim>\<open>pd.to_datetime(..., errors='coerce')\<close> is a
  parameter \<open>to_datetime\<close> that returns \<open>None\<close> for the not-a-time value. The sales
  cells have the type \<open>'v\<close> of the values of the column: 64-bit integers when every cell
  of the file is an integer, 64-bit floating-point numbers otherwise.
\<close>

type_synonym ('c, 'v) order_row = "'c \<times> 'v"

text \<open>Line 32: the date column is replaced by its parsed form.\<close>

definition coerce_dates ::
  "('c \<Rightarrow> timestamp option) \<Rightarrow> ('c, 'v) order_row list \<Rightarrow> (timestamp option \<times> 'v) list" where
  "coerce_dates to_datetime rows = map (\<lambda>(c, v). (to_datetime c, v)) rows"

text \<open>Line 33, \<^verbatim>\<open>df.dropna(subset=['ORDERDATE'])\<close>: rows without a date are removed.\<close>

fun dropna :: "(timestamp option \<times> 'v) list \<Rightarrow> (timestamp \<times> 'v) list" where
  "dropna [] = []"
| "dropna ((None, v) # rs) = dropna rs"
| "dropna ((Some d, v) # rs) = (d, v) # dropna rs"

text \<open>Line 34: the \<^verbatim>\<open>Month\<close> column, kept here beside the sales cell.\<close>

definition month_column :: "(timestamp \<times> 'v) list \<Rightarrow> (timestamp \<times> 'v) list" where
  "month_column rs = map (\<lambda>(d, v). (to_month d, v)) rs"

text \<open>
  Line 37, \<^verbatim>\<open>df.groupby('Month')['SALES'].sum()\<close>, splits the rows into groups, sums
  the cells of each group and returns the groups sorted by key (\<^verbatim>\<open>sort=True\<close> is the
  default of \<^verbatim>\<open>groupby\<close>). Rows are visited in order; each cell is appended to the
  cells of the group of its key, and a key seen for the first time opens a new group.
\<close>

fun group_add :: "timestamp \<Rightarrow> 'v \<Rightarrow> (timestamp \<times> 'v list) list \<Rightarrow> (timestamp \<times> 'v list) list" where
  "group_add k v [] = [(k, [v])]"
| "group_add k v ((k', vs) # gs) =
     (if k = k' then (k', vs @ [v]) # gs else (k', vs) # group_add k v gs)"

definition group_cells :: "(timestamp \<times> 'v) list \<Rightarrow> (timestamp \<times> 'v list) list" where
  "group_cells rs = foldl (\<lambda>gs (k, v). group_add k v gs) [] rs"

text \<open>
  How the cells of one group are summed depends on the type of the column, so the sum
  is a parameter \<open>column_sum\<close> of the aggregation. pandas has two sums for a numeric
  column.
  \<^item> An \<^verbatim>\<open>int64\<close> column is added up in 64-bit two's complement arithmetic, which
    wraps around; such a column has no missing cell.
  \<^item> A \<^verbatim>\<open>float64\<close> column holds floating-point numbers, a missing cell being the
    not-a-number value. The sum skips the cells that are not a number and adds the
    others up in floating-point arithmetic (a group of missing cells only has the sum of
    no cell). Floating-point numbers and their rounding are not modelled: the type
    \<open>'f\<close> of the numbers, the test \<open>isnan\<close> and the summation \<open>fsum\<close> of cells that are
    numbers are parameters.
\<close>

type_synonym int64 = "64 word"

definition int64_sum :: "int64 list \<Rightarrow> int64" where
  "int64_sum cells = foldl (+) 0 cells"

definition float64_sum :: "('f \<Rightarrow> bool) \<Rightarrow> ('f list \<Rightarrow> 'f) \<Rightarrow> 'f list \<Rightarrow> 'f" where
  "float64_sum isnan fsum cells = fsum (filter (\<lambda>x. \<not> isnan x) cells)"

definition groupby_sum :: "('v list \<Rightarrow> 'v) \<Rightarrow> (timestamp \<times> 'v) list \<Rightarrow> (timestamp \<times> 'v) list" where
  "groupby_sum column_sum rs =
     sort_key (\<lambda>g. ts_key (fst g)) (map (\<lambda>(k, vs). (k, column_sum vs)) (group_cells rs))"

text \<open>
  Lines 32 to 38 together: \<open>monthly_sales\<close> is the frame indexed by \<^verbatim>\<open>Month\<close> with
  the one column \<^verbatim>\<open>SALES\<close>, as a list of (month, total) in index order.
\<close>

definition monthly_sales ::
  "('v list \<Rightarrow> 'v) \<Rightarrow> ('c \<Rightarrow> timestamp option) \<Rightarrow> ('c, 'v) order_row list
     \<Rightarrow> (timestamp \<times> 'v) list" where
  "monthly_sales column_sum to_datetime rows =
     groupby_sum column_sum (month_column (dropna (coerce_dates to_datetime rows)))"

text \<open>
  The words of the specification, to compare the code with: the sales cells of the rows
  whose date parses and falls in the calendar month \<open>m\<close>, in row order.
\<close>

definition sales_in_month ::
  "('c \<Rightarrow> timestamp option) \<Rightarrow> ('c, 'v) order_row list \<Rightarrow> timestamp \<Rightarrow> 'v list" where
  "sales_in_month to_datetime rows m =
     map snd (filter (\<lambda>r. map_option to_month (to_datetime (fst r)) = Some m) rows)"

text \<open>
  Auxiliary notions for the proofs: the grouping loop started from any list of groups,
  the cells of a key among keyed rows, and the rows that reach the grouping.
\<close>

definition group_fold ::
  "(timestamp \<times> 'v list) list \<Rightarrow> (timestamp \<times> 'v) list \<Rightarrow> (timestamp \<times> 'v list) list" where
  "group_fold gs rs = foldl (\<lambda>gs (k, v). group_add k v gs) gs rs"

definition key_cells :: "(timestamp \<times> 'v) list \<Rightarrow> timestamp \<Rightarrow> 'v list" where
  "key_cells rs k = map snd (filter (\<lambda>r. fst r = k) rs)"

definition keyed_rows ::
  "('c \<Rightarrow> timestamp option) \<Rightarrow> ('c, 'v) order_row list \<Rightarrow> (timestamp \<times> 'v) list" where
  "keyed_rows to_datetime rows = month_column (dropna (coerce_dates to_datetime rows))"

section \<open>Forecast index (lines 49 to 51)\<close>

definition forecast_steps :: nat where
  "forecast_steps = 12"

text \<open>
  A timestamp has a last representable month, which depends on the resolution of the
  timestamps of the installed pandas: December 9999 at most, April 2262 with nanosecond
  resolution. The operations below take the number \<open>hi\<close> (as \<open>month_ord\<close> counts) of
  that month and return \<open>None\<close> where pandas raises because the result lies beyond it.

  \<^verbatim>\<open>ts + pd.DateOffset(months=n)\<close>: \<open>n\<close> calendar months later, the day of the month
  kept unless the target month is shorter, in which case it is the last day of that
  month.
\<close>

definition date_offset_months :: "nat \<Rightarrow> nat \<Rightarrow> timestamp \<Rightarrow> timestamp option" where
  "date_offset_months hi n d =
     (let t = year d * 12 + (month d - 1) + n;
          y = t div 12;
          m = t mod 12 + 1
      in if hi < t then None
         else Some \<lparr>year = y, month = m, day = min (day d) (days_in_month y m)\<rparr>)"

text \<open>
  \<^verbatim>\<open>pd.date_range(start=s, periods=n, freq='MS')\<close>: \<open>n\<close> month starts. A start that is
  not a month start is first rolled forward to the next one; each further entry is the
  first day of the following month.
\<close>

definition next_month_start :: "nat \<Rightarrow> timestamp \<Rightarrow> timestamp option" where
  "next_month_start hi d =
     (if hi < month_ord d + 1 then None
      else if month d = 12 then Some \<lparr>year = year d + 1, month = 1, day = 1\<rparr>
      else Some \<lparr>year = year d, month = month d + 1, day = 1\<rparr>)"

definition rollforward :: "nat \<Rightarrow> timestamp \<Rightarrow> timestamp option" where
  "rollforward hi d = (if day d = 1 then Some d else next_month_start hi d)"

fun month_starts_from :: "nat \<Rightarrow> timestamp \<Rightarrow> nat \<Rightarrow> timestamp list option" where
  "month_starts_from hi d 0 = Some []"
| "month_starts_from hi d (Suc 0) = Some [d]"
| "month_starts_from hi d (Suc (Suc n)) =
     (case next_month_start hi d of
        None \<Rightarrow> None
      | Some d' \<Rightarrow>
          (case month_starts_from hi d' (Suc n) of
             None \<Rightarrow> None
           | Some ds \<Rightarrow> Some (d # ds)))"

definition date_range :: "nat \<Rightarrow> timestamp \<Rightarrow> nat \<Rightarrow> timestamp list option" where
  "date_range hi start periods =
     (case rollforward hi start of
        None \<Rightarrow> None
      | Some s \<Rightarrow> month_starts_from hi s periods)"

text \<open>
  \<^verbatim>\<open>monthly_sales.index[-1]\<close> raises \<^verbatim>\<open>IndexError\<close> on an empty index. An exception
  is modelled by its message, the text that line 74 displays.
\<close>

definition index_last :: "(timestamp \<times> 'v) list \<Rightarrow> string + timestamp" where
  "index_last ms =
     (if ms = [] then Inl ''index -1 is out of bounds for axis 0 with size 0''
      else Inr (fst (last ms)))"

text \<open>
  Line 51. \<open>msg\<close> is the message of the exception that pandas raises for a timestamp
  out of its range; its wording belongs to pandas.
\<close>

definition forecast_index :: "nat \<Rightarrow> string \<Rightarrow> (timestamp \<times> 'v) list \<Rightarrow> string + timestamp list" where
  "forecast_index hi msg ms =
     (case index_last ms of
        Inl e \<Rightarrow> Inl e
      | Inr d \<Rightarrow>
          (case date_offset_months hi 1 d of
             None \<Rightarrow> Inl msg
           | Some start \<Rightarrow>
               (case date_range hi start forecast_steps of
                  None \<Rightarrow> Inl msg
                | Some idx \<Rightarrow> Inr idx)))"

section \<open>Encoding (lines 17 to 23)\<close>

type_synonym byte = "8 word"

text \<open>\<^verbatim>\<open>str.lower()\<close> on the ASCII letters, which is what encoding names are made of.\<close>

definition lower_char :: "char \<Rightarrow> char" where
  "lower_char c =
     (case map_of (zip ''ABCDEFGHIJKLMNOPQRSTUVWXYZ'' ''abcdefghijklmnopqrstuvwxyz'') c of
        Some l \<Rightarrow> l
      | None \<Rightarrow> c)"

definition lower :: "string \<Rightarrow> string" where
  "lower s = map lower_char s"

text \<open>
  Line 19. The argument is \<^verbatim>\<open>detected['encoding']\<close>: \<open>None\<close> or a name. A name is
  truthy when it is not empty; the list \<^verbatim>\<open>['johab', None]\<close> is kept as it is written.
\<close>

definition choose_encoding :: "string option \<Rightarrow> string" where
  "choose_encoding detected =
     (case detected of
        None \<Rightarrow> ''ISO-8859-1''
      | Some e \<Rightarrow>
          if e \<noteq> [] \<and> Some (lower e) \<notin> set [Some ''johab'', None] then e
          else ''ISO-8859-1'')"

text \<open>
  ISO-8859-1 maps every byte to the code point of the same number, so its decoder has no
  failing input. A decoded text is the list of its code points.
\<close>

definition latin1_decode :: "byte list \<Rightarrow> nat list" where
  "latin1_decode raw = map unat raw"

section \<open>The script\<close>

text \<open>
  The frame that \<^verbatim>\<open>pd.read_csv\<close> returns: the header names and, for each data row,
  the two cells the script reads.
\<close>

record ('c, 'v) dataframe =
  columns :: "string list"
  data_rows :: "('c, 'v) order_row list"

text \<open>
  The script calls into chardet, pandas and statsmodels. What these libraries compute
  is not part of the repository; their entry points are fields of a record that the
  script takes as a parameter. A call that raises returns \<open>Inl\<close> of the message.
  \<^item> \<open>chardet_detect\<close>: \<^verbatim>\<open>chardet.detect(raw)['encoding']\<close>;
  \<^item> \<open>codec_decode\<close>: decoding with an encoding other than ISO-8859-1;
  \<^item> \<open>parse_csv\<close>: the tokenizer of \<^verbatim>\<open>pd.read_csv\<close> on the decoded text;
  \<^item> \<open>parse_datetime\<close>: \<^verbatim>\<open>pd.to_datetime(..., errors='coerce')\<close> on one cell;
  \<^item> \<open>column_sum\<close>: the sum of the cells of one group, for the type of the
    \<^verbatim>\<open>SALES\<close> column (\<open>int64_sum\<close>, or \<open>float64_sum\<close> with its parameters);
  \<^item> \<open>last_month\<close> and \<open>out_of_bounds\<close>: the last month a timestamp can hold, and
    the message of the exception raised beyond it;
  \<^item> \<open>sarimax_fit\<close>: \<^verbatim>\<open>SARIMAX(..., order=(1,1,1), seasonal_order=(1,1,1,12)).fit()\<close>;
  \<^item> \<open>get_forecast\<close>: \<^verbatim>\<open>results.get_forecast(steps)\<close> with its mean and interval.
\<close>

record ('c, 'v, 'm, 'f) library =
  chardet_detect :: "byte list \<Rightarrow> string option"
  codec_decode :: "string \<Rightarrow> byte list \<Rightarrow> string + nat list"
  parse_csv :: "nat list \<Rightarrow> string + ('c, 'v) dataframe"
  parse_datetime :: "'c \<Rightarrow> timestamp option"
  column_sum :: "'v list \<Rightarrow> 'v"
  last_month :: nat
  out_of_bounds :: string
  sarimax_fit :: "(timestamp \<times> 'v) list \<Rightarrow> string + 'm"
  get_forecast :: "'m \<Rightarrow> nat \<Rightarrow> string + 'f"

definition decode :: "('c, 'v, 'm, 'f) library \<Rightarrow> string \<Rightarrow> byte list \<Rightarrow> string + nat list" where
  "decode L encoding raw =
     (if encoding = ''ISO-8859-1'' then Inr (latin1_decode raw) else codec_decode L encoding raw)"

text \<open>Line 23: decode, then parse.\<close>

definition read_csv ::
  "('c, 'v, 'm, 'f) library \<Rightarrow> byte list \<Rightarrow> string \<Rightarrow> string + ('c, 'v) dataframe" where
  "read_csv L raw encoding =
     (case decode L encoding raw of
        Inl e \<Rightarrow> Inl e
      | Inr txt \<Rightarrow> parse_csv L txt)"

definition required_cols :: "string set" where
  "required_cols = {''ORDERDATE'', ''SALES''}"

text \<open>
  Line 57: the frame of the forecast, whose index is \<^verbatim>\<open>forecast_index\<close> and whose one
  column comes from the forecast object.
\<close>

record 'f forecast_frame =
  frame_index :: "timestamp list"
  forecast_values :: 'f

text \<open>
  What the page shows, in order. Line 28 prints the set \<^verbatim>\<open>required_cols\<close>; line 74
  prints the message of the exception. Headings and the spinner are left out.
\<close>

datatype ('v, 'f) display =
    St_info
  | St_error_columns "string set"
  | St_error_exception string
  | St_success
  | St_line_chart "(timestamp \<times> 'v) list"
  | St_write "'f forecast_frame"
  | St_pyplot
  | St_download_button "'f forecast_frame"

text \<open>
  What can leave the \<^verbatim>\<open>try\<close> block: an \<^verbatim>\<open>Exception\<close> with its message, which
  line 73 catches, or the \<^verbatim>\<open>StopException\<close> of \<^verbatim>\<open>st.stop()\<close>, which is not an
  \<^verbatim>\<open>Exception\<close> and passes through the handler to end the run.
\<close>

datatype raised = Exception string | StopException

text \<open>
  Lines 43 to 71, with what was shown before the block was left: the fit, the forecast,
  the index of the forecast and the frame shown to the user.
\<close>

definition forecast_stage ::
  "('c, 'v, 'm, 'f) library \<Rightarrow> (timestamp \<times> 'v) list \<Rightarrow> ('v, 'f) display list
     \<Rightarrow> ('v, 'f) display list \<times> (raised + 'f forecast_frame)" where
  "forecast_stage L monthly out =
     (case sarimax_fit L monthly of
        Inl e \<Rightarrow> (out, Inl (Exception e))
      | Inr results \<Rightarrow>
          (case get_forecast L results forecast_steps of
             Inl e \<Rightarrow> (out, Inl (Exception e))
           | Inr forecast \<Rightarrow>
               (case forecast_index (last_month L) (out_of_bounds L) monthly of
                  Inl e \<Rightarrow> (out, Inl (Exception e))
                | Inr idx \<Rightarrow>
                    (out @ [St_write \<lparr>frame_index = idx, forecast_values = forecast\<rparr>, St_pyplot],
                     Inr \<lparr>frame_index = idx, forecast_values = forecast\<rparr>))))"

text \<open>Lines 16 to 71.\<close>

definition try_block ::
  "('c, 'v, 'm, 'f) library \<Rightarrow> byte list
     \<Rightarrow> ('v, 'f) display list \<times> (raised + 'f forecast_frame)" where
  "try_block L raw_data =
     (case read_csv L raw_data (choose_encoding (chardet_detect L raw_data)) of
        Inl e \<Rightarrow> ([], Inl (Exception e))
      | Inr df \<Rightarrow>
          (if \<not> required_cols \<subseteq> set (columns df)
           then ([St_error_columns required_cols], Inl StopException)
           else forecast_stage L
                  (monthly_sales (column_sum L) (parse_datetime L) (data_rows df))
                  [St_success,
                   St_line_chart (monthly_sales (column_sum L) (parse_datetime L) (data_rows df))]))"

text \<open>
  How a run of the script ends: it reaches the last line, it is stopped by
  \<^verbatim>\<open>st.stop()\<close>, or an exception leaves the script uncaught.
\<close>

datatype ending = Completed | Stopped | Uncaught string

record ('v, 'f) run =
  shown :: "('v, 'f) display list"
  ending :: ending

text \<open>
  Lines 81 to 86 stand after the \<^verbatim>\<open>if\<close>, outside the \<^verbatim>\<open>try\<close>. They read
  \<^verbatim>\<open>forecast_df\<close>, a name that only line 57 binds.
\<close>

definition download_button ::
  "('v, 'f) display list \<Rightarrow> 'f forecast_frame option \<Rightarrow> ('v, 'f) run" where
  "download_button out forecast_df =
     (case forecast_df of
        None \<Rightarrow> \<lparr>shown = out, ending = Uncaught ''name 'forecast_df' is not defined''\<rparr>
      | Some f \<Rightarrow> \<lparr>shown = out @ [St_download_button f], ending = Completed\<rparr>)"

text \<open>The whole script, lines 12 to 86; \<open>uploaded_file\<close> is \<open>None\<close> before an upload.\<close>

definition script :: "('c, 'v, 'm, 'f) library \<Rightarrow> byte list option \<Rightarrow> ('v, 'f) run" where
  "script L uploaded_file =
     (case uploaded_file of
        None \<Rightarrow> download_button [St_info] None
      | Some raw_data \<Rightarrow>
          (case try_block L raw_data of
             (out, Inr forecast_df) \<Rightarrow> download_button out (Some forecast_df)
           | (out, Inl (Exception e)) \<Rightarrow> download_button (out @ [St_error_exception e]) None
           | (out, Inl StopException) \<Rightarrow> \<lparr>shown = out, ending = Stopped\<rparr>))"

text \<open>
  A stand-in for the libraries, for the examples: the reader returns the frame \<open>df\<close>
  for the bytes at hand, a date cell is already a timestamp or not-a-time, the sales
  column holds 64-bit integers, the last month of a timestamp is December 9999, the fit
  behaves as \<open>fit\<close> says, and the fitted model and the forecast carry no data.
\<close>

definition stub_library ::
  "(timestamp option, int64) dataframe \<Rightarrow> ((timestamp \<times> int64) list \<Rightarrow> string + unit)
     \<Rightarrow> (timestamp option, int64, unit, unit) library" where
  "stub_library df fit =
     \<lparr>chardet_detect = (\<lambda>raw. None),
      codec_decode = (\<lambda>encoding raw. Inl ''unknown encoding''),
      parse_csv = (\<lambda>txt. Inr df),
      parse_datetime = (\<lambda>c. c),
      column_sum = int64_sum,
      last_month = 119999,
      out_of_bounds = ''timestamp out of range'',
      sarimax_fit = fit,
      get_forecast = (\<lambda>results steps. Inr ())\<rparr>"

text \<open>The bytes of an ASCII text, for the uploads of the examples.\<close>

definition ascii_bytes :: "string \<Rightarrow> byte list" where
  "ascii_bytes s = map of_char s"

section \<open>Properties of the aggregation\<close>

lemma keys_group_add:
  "map fst (group_add k v gs) = (if k \<in> fst ` set gs then map fst gs else map fst gs @ [k])"
  by (induction gs) force+

lemma distinct_group_add:
  "distinct (map fst gs) \<Longrightarrow> distinct (map fst (group_add k v gs))"
  by (simp add: keys_group_add)

lemma map_of_group_add:
  "map_of (group_add k v gs) k' =
     (if k' = k then Some ((case map_of gs k of None \<Rightarrow> [] | Some vs \<Rightarrow> vs) @ [v])
      else map_of gs k')"
  by (induction gs) auto

lemma group_fold_simps:
  "group_fold gs [] = gs"
  "group_fold gs ((k, v) # rs) = group_fold (group_add k v gs) rs"
  by (simp_all add: group_fold_def)

lemma keys_group_fold:
  "fst ` set (group_fold gs rs) = fst ` set gs \<union> fst ` set rs"
proof (induction rs arbitrary: gs)
  case Nil
  show ?case by (simp add: group_fold_simps)
next
  case (Cons r rs)
  obtain k v where r: "r = (k, v)" by (cases r)
  have "fst ` set (group_add k v gs) = insert k (fst ` set gs)"
    using keys_group_add [of k v gs, THEN arg_cong, of set] by auto
  then show ?case
    unfolding r group_fold_simps Cons.IH by auto
qed

lemma distinct_group_fold:
  "distinct (map fst gs) \<Longrightarrow> distinct (map fst (group_fold gs rs))"
proof (induction rs arbitrary: gs)
  case Nil
  then show ?case by (simp add: group_fold_simps)
next
  case (Cons r rs)
  obtain k v where r: "r = (k, v)" by (cases r)
  show ?case
    unfolding r group_fold_simps
    by (rule Cons.IH) (rule distinct_group_add [OF Cons.prems])
qed

lemma map_of_group_fold:
  "map_of (group_fold gs rs) k =
     (if k \<in> fst ` set gs \<union> fst ` set rs
      then Some ((case map_of gs k of None \<Rightarrow> [] | Some vs \<Rightarrow> vs) @ key_cells rs k)
      else None)"
proof (induction rs arbitrary: gs)
  case Nil
  show ?case
    by (auto simp: group_fold_simps key_cells_def map_of_eq_None_iff split: option.splits)
next
  case (Cons r rs)
  obtain k' v where r: "r = (k', v)" by (cases r)
  have kt: "key_cells ((k', v) # rs) k = (if k' = k then [v] else []) @ key_cells rs k"
    by (simp add: key_cells_def)
  have ks: "fst ` set (group_add k' v gs) = insert k' (fst ` set gs)"
    using keys_group_add [of k' v gs, THEN arg_cong, of set] by auto
  show ?case
    unfolding r group_fold_simps Cons.IH kt ks
    by (auto simp: map_of_group_add map_of_eq_None_iff split: option.splits)
qed

lemma group_cells_fold: "group_cells rs = group_fold [] rs"
  by (simp add: group_cells_def group_fold_def)

lemma inj_ts_key: "ts_key a = ts_key b \<Longrightarrow> a = b"
  by (simp add: ts_key_def)

lemma keys_summed: "map fst (map (\<lambda>(k, vs). (k, f vs)) gs) = map fst gs"
  by (induction gs) auto

lemma keys_summed_set: "fst ` set (map (\<lambda>(k, vs). (k, f vs)) gs) = fst ` set gs"
  using keys_summed [of f gs, THEN arg_cong, of set] by (simp only: set_map)

lemma keys_groupby_sum: "fst ` set (groupby_sum cs rs) = fst ` set rs"
proof -
  have "fst ` set (groupby_sum cs rs) = fst ` set (map (\<lambda>(k, vs). (k, cs vs)) (group_cells rs))"
    by (simp only: groupby_sum_def set_sort)
  also have "\<dots> = fst ` set (group_cells rs)"
    by (rule keys_summed_set)
  also have "\<dots> = fst ` set rs"
    using keys_group_fold [of "[]" rs] by (simp add: group_cells_fold)
  finally show ?thesis .
qed

lemma distinct_summed_groups:
  "distinct (map fst (map (\<lambda>(k, vs). (k, cs vs)) (group_cells rs)))"
  unfolding keys_summed group_cells_fold by (rule distinct_group_fold) simp

lemma distinct_keys_sort_key: "distinct (map g ys) \<Longrightarrow> distinct (map g (sort_key f ys))"
  by (simp add: distinct_map)

lemma distinct_groupby_sum: "distinct (map fst (groupby_sum cs rs))"
  unfolding groupby_sum_def
  by (rule distinct_keys_sort_key) (rule distinct_summed_groups)

lemma map_of_groupby_sum:
  "map_of (groupby_sum cs rs) k = (if k \<in> fst ` set rs then Some (cs (key_cells rs k)) else None)"
proof -
  let ?gs = "map (\<lambda>(k, vs). (k, cs vs)) (group_cells rs)"
  have "map_of (groupby_sum cs rs) = map_of ?gs"
    using distinct_summed_groups [of cs rs] distinct_groupby_sum [of cs rs]
    by (simp add: map_of_inject_set groupby_sum_def)
  then have "map_of (groupby_sum cs rs) k = map_option cs (map_of (group_cells rs) k)"
    by (simp add: map_of_map)
  then show ?thesis
    using map_of_group_fold [of "[]" rs k] by (simp add: group_cells_fold)
qed

lemma sorted_keys_groupby_sum: "sorted (map (\<lambda>g. ts_key (fst g)) (groupby_sum cs rs))"
  by (simp add: groupby_sum_def)

lemma sorted_groupby_sum:
  "sorted_wrt (\<lambda>a b. ts_key (fst a) < ts_key (fst b)) (groupby_sum cs rs)"
proof -
  have "distinct (map ts_key (map fst (groupby_sum cs rs)))"
    using distinct_groupby_sum [of cs rs]
    by (simp only: distinct_map) (auto intro!: inj_onI dest: inj_ts_key)
  then have d: "distinct (map (\<lambda>g. ts_key (fst g)) (groupby_sum cs rs))"
    by (simp add: comp_def)
  from sorted_keys_groupby_sum [of cs rs] d
  have "sorted_wrt (<) (map (\<lambda>g. ts_key (fst g)) (groupby_sum cs rs))"
    by (simp add: strict_sorted_iff)
  then show ?thesis by (simp add: sorted_wrt_map)
qed

lemma keyed_rows_simps:
  "keyed_rows f [] = []"
  "keyed_rows f ((c, v) # rows) =
     (case f c of None \<Rightarrow> keyed_rows f rows | Some d \<Rightarrow> (to_month d, v) # keyed_rows f rows)"
  by (simp_all add: keyed_rows_def month_column_def coerce_dates_def split: option.splits)

lemma keyed_rows_filter:
  "keyed_rows f rows =
     map (\<lambda>r. (to_month (the (f (fst r))), snd r)) (filter (\<lambda>r. f (fst r) \<noteq> None) rows)"
  by (induction rows) (auto simp: keyed_rows_simps split: option.splits)

lemma keys_keyed_rows:
  "fst ` set (keyed_rows f rows) = {m. \<exists>r\<in>set rows. map_option to_month (f (fst r)) = Some m}"
  unfolding keyed_rows_filter by force

lemma key_cells_keyed_rows: "key_cells (keyed_rows f rows) m = sales_in_month f rows m"
  by (induction rows)
    (auto simp: keyed_rows_simps key_cells_def sales_in_month_def split: option.splits)

lemma monthly_sales_keyed: "monthly_sales cs f rows = groupby_sum cs (keyed_rows f rows)"
  by (simp add: monthly_sales_def keyed_rows_def)

lemma map_of_monthly_sales:
  "map_of (monthly_sales cs f rows) m =
     (if \<exists>r\<in>set rows. map_option to_month (f (fst r)) = Some m
      then Some (cs (sales_in_month f rows m)) else None)"
  using keys_keyed_rows [of f rows]
  by (simp add: monthly_sales_keyed map_of_groupby_sum key_cells_keyed_rows)

lemma keys_monthly_sales:
  "fst ` set (monthly_sales cs f rows) = {m. \<exists>r\<in>set rows. map_option to_month (f (fst r)) = Some m}"
  by (simp add: monthly_sales_keyed keys_groupby_sum keys_keyed_rows)

lemma sales_in_month_append:
  "sales_in_month f (xs @ ys) m = sales_in_month f xs m @ sales_in_month f ys m"
  by (simp add: sales_in_month_def)

lemma sales_in_month_Cons:
  "sales_in_month f ((c, v) # ys) m =
     (if map_option to_month (f c) = Some m then [v] else []) @ sales_in_month f ys m"
  by (simp add: sales_in_month_def)

lemma to_month_fields: "to_month d = \<lparr>year = year d, month = month d, day = 1\<rparr>"
  by (simp add: to_month_def)

lemma map_to_month_eq_Some:
  "(map_option to_month x = Some m) = (\<exists>d. x = Some d \<and> m = \<lparr>year = year d, month = month d, day = 1\<rparr>)"
  by (cases x) (auto simp: to_month_fields)

lemma keys_monthly_sales_cells:
  "fst ` set (monthly_sales cs f rows) = {m. \<exists>c\<in>fst ` set rows. map_option to_month (f c) = Some m}"
  unfolding keys_monthly_sales by (simp add: Bex_def image_iff)

lemma dropna_coerce_Some: "dropna (coerce_dates Some xs) = xs"
  by (induction xs) (auto simp: coerce_dates_def)

lemma to_month_idem: "to_month (to_month d) = to_month d"
  by (simp add: to_month_def)

lemma group_add_fresh:
  "k \<notin> fst ` set gs \<Longrightarrow> group_add k t gs = gs @ [(k, [t])]"
  by (induction gs) auto

lemma group_fold_distinct:
  "distinct (map fst gs @ map fst xs) \<Longrightarrow>
     group_fold gs xs = gs @ map (\<lambda>(m, t). (m, [t])) xs"
proof (induction xs arbitrary: gs)
  case Nil
  show ?case by (simp add: group_fold_simps)
next
  case (Cons x xs)
  obtain k t where x: "x = (k, t)" by (cases x)
  from Cons.prems have fresh: "k \<notin> fst ` set gs"
    and d: "distinct (map fst (gs @ [(k, [t])]) @ map fst xs)"
    by (auto simp: x)
  show ?case
    using Cons.IH [OF d] by (simp add: x group_fold_simps group_add_fresh [OF fresh])
qed

lemma groupby_sum_fixed:
  assumes "distinct (map fst xs)" and "sorted (map (\<lambda>g. ts_key (fst g)) xs)"
    and "\<And>t. cs [t] = t"
  shows "groupby_sum cs xs = xs"
proof -
  have "group_cells xs = map (\<lambda>(m, t). (m, [t])) xs"
    using group_fold_distinct [of "[]" xs] assms(1) by (simp add: group_cells_fold)
  moreover have "map (\<lambda>(k, vs). (k, cs vs)) (map (\<lambda>(m, t). (m, [t])) xs) = xs"
    by (induction xs) (auto simp: assms(3))
  ultimately have "map (\<lambda>(k, vs). (k, cs vs)) (group_cells xs) = xs"
    by simp
  then show ?thesis
    by (simp add: groupby_sum_def sort_key_id_if_sorted [OF assms(2)])
qed

lemma keyed_rows_of_series:
  assumes "\<And>m. m \<in> fst ` set xs \<Longrightarrow> to_month m = m"
  shows "keyed_rows Some xs = xs"
  using assms
  by (induction xs) (auto simp: keyed_rows_simps)

lemma int64_sum_sum_list: "int64_sum cells = sum_list cells"
proof -
  have "foldl (+) a cells = a + sum_list cells" for a :: int64
    by (induction cells arbitrary: a) (simp_all add: add.assoc)
  then show ?thesis by (simp add: int64_sum_def)
qed

lemma int64_sum_single: "int64_sum [t] = t"
  by (simp add: int64_sum_def)

lemma int64_sum_modular: "int64_sum cells = word_of_int (sum_list (map sint cells))"
  unfolding int64_sum_sum_list by (induction cells) simp_all

lemma int64_sum_exact:
  assumes "- (2 ^ 63) \<le> sum_list (map sint cells)" and "sum_list (map sint cells) < 2 ^ 63"
  shows "sint (int64_sum cells) = sum_list (map sint cells)"
  unfolding int64_sum_modular using assms
  by (simp add: sint_sbintrunc' signed_take_bit_int_eq_self)

lemma int64_sum_wraps: "sint (int64_sum [4611686018427387904, 4611686018427387904]) = - 9223372036854775808"
  by (simp add: int64_sum_def)

section \<open>The monthly series\<close>

text \<open>
  C2: every row whose date parses is counted under the first day of its calendar month,
  and the series holds, for each such month, the sum of the sales cells of all its rows,
  as the sum of the column computes it: looking a month up in \<open>monthly_sales\<close> gives
  that sum when some row falls in the month, and nothing otherwise. For an integer
  column the sum is the sum of the values in 64-bit two's complement arithmetic, equal
  to the exact sum whenever that fits in 64 bits. The rows (2023-01-05, 100),
  (2023-01-20, 50) and (2023-02-01, 200) aggregate to (2023-01-01, 150),
  (2023-02-01, 200).
\<close>

theorem monthly_sales_sums_by_month:
  "map_of (monthly_sales col_sum to_dt rows) m =
     (if \<exists>r\<in>set rows. map_option to_month (to_dt (fst r)) = Some m
      then Some (col_sum (sales_in_month to_dt rows m)) else None)
   \<and> int64_sum cells = word_of_int (sum_list (map sint cells))
   \<and> (- (2 ^ 63) \<le> sum_list (map sint cells) \<and> sum_list (map sint cells) < 2 ^ 63
        \<longrightarrow> sint (int64_sum cells) = sum_list (map sint cells))
   \<and> monthly_sales int64_sum (\<lambda>c. c)
       [(Some \<lparr>year = 2023, month = 1, day = 5\<rparr>, 100),
        (Some \<lparr>year = 2023, month = 1, day = 20\<rparr>, 50),
        (Some \<lparr>year = 2023, month = 2, day = 1\<rparr>, 200)]
     = [(\<lparr>year = 2023, month = 1, day = 1\<rparr>, 150), (\<lparr>year = 2023, month = 2, day = 1\<rparr>, 200)]"
proof (intro conjI)
  show "map_of (monthly_sales col_sum to_dt rows) m =
     (if \<exists>r\<in>set rows. map_option to_month (to_dt (fst r)) = Some m
      then Some (col_sum (sales_in_month to_dt rows m)) else None)"
    by (rule map_of_monthly_sales)
next
  show "int64_sum cells = word_of_int (sum_list (map sint cells))"
    by (rule int64_sum_modular)
next
  show "- (2 ^ 63) \<le> sum_list (map sint cells) \<and> sum_list (map sint cells) < 2 ^ 63
        \<longrightarrow> sint (int64_sum cells) = sum_list (map sint cells)"
    using int64_sum_exact [of cells] by blast
next
  show "monthly_sales int64_sum (\<lambda>c. c)
       [(Some \<lparr>year = 2023, month = 1, day = 5\<rparr>, 100),
        (Some \<lparr>year = 2023, month = 1, day = 20\<rparr>, 50),
        (Some \<lparr>year = 2023, month = 2, day = 1\<rparr>, 200)]
     = [(\<lparr>year = 2023, month = 1, day = 1\<rparr>, 150), (\<lparr>year = 2023, month = 2, day = 1\<rparr>, 200)]"
    by (simp add: monthly_sales_def groupby_sum_def group_cells_def month_column_def
        coerce_dates_def to_month_def int64_sum_def ts_key_def)
qed

theorem monthly_sales_sums_by_month_witness:
  "map_of (monthly_sales int64_sum (\<lambda>c. c)
       [(Some \<lparr>year = 2023, month = 1, day = 5\<rparr>, 100),
        (None, 7),
        (Some \<lparr>year = 2023, month = 1, day = 20\<rparr>, 50),
        (Some \<lparr>year = 2023, month = 2, day = 1\<rparr>, 200)])
      \<lparr>year = 2023, month = 1, day = 1\<rparr> = Some 150
   \<and> sint (int64_sum [100, - 30]) = 70"
proof
  show "map_of (monthly_sales int64_sum (\<lambda>c. c)
       [(Some \<lparr>year = 2023, month = 1, day = 5\<rparr>, 100),
        (None, 7),
        (Some \<lparr>year = 2023, month = 1, day = 20\<rparr>, 50),
        (Some \<lparr>year = 2023, month = 2, day = 1\<rparr>, 200)])
      \<lparr>year = 2023, month = 1, day = 1\<rparr> = Some 150"
    using monthly_sales_sums_by_month [of int64_sum "\<lambda>c. c"
       "[(Some \<lparr>year = 2023, month = 1, day = 5\<rparr>, 100),
        (None, 7),
        (Some \<lparr>year = 2023, month = 1, day = 20\<rparr>, 50),
        (Some \<lparr>year = 2023, month = 2, day = 1\<rparr>, 200)]"
       "\<lparr>year = 2023, month = 1, day = 1\<rparr>", THEN conjunct1]
    by (simp add: sales_in_month_def to_month_def int64_sum_def)
next
  have "- (2 ^ 63) \<le> sum_list (map sint [100, - 30 :: int64])
        \<and> sum_list (map sint [100, - 30 :: int64]) < 2 ^ 63"
    by simp
  then show "sint (int64_sum [100, - 30]) = 70"
    using monthly_sales_sums_by_month [where cells = "[100, - 30]",
        THEN conjunct2, THEN conjunct2, THEN conjunct1]
    by simp
qed

text \<open>
  C7: the series is strictly ascending by month, so no month occurs twice, and a month
  is in the series exactly when some row with a parsed date falls in it: a month without
  orders is absent, not filled with zero.
\<close>

theorem monthly_sales_ascending_no_gap_filling:
  "sorted_wrt (\<lambda>a b. ts_key (fst a) < ts_key (fst b)) (monthly_sales col_sum to_dt rows)
   \<and> distinct (map fst (monthly_sales col_sum to_dt rows))
   \<and> (m \<in> fst ` set (monthly_sales col_sum to_dt rows))
       = (\<exists>r\<in>set rows. \<exists>d. to_dt (fst r) = Some d \<and> m = \<lparr>year = year d, month = month d, day = 1\<rparr>)"
proof -
  have "(m \<in> fst ` set (monthly_sales col_sum to_dt rows))
       = (\<exists>r\<in>set rows. map_option to_month (to_dt (fst r)) = Some m)"
    by (simp add: keys_monthly_sales)
  also have "\<dots> = (\<exists>r\<in>set rows. \<exists>d. to_dt (fst r) = Some d \<and> m = \<lparr>year = year d, month = month d, day = 1\<rparr>)"
    by (simp only: map_to_month_eq_Some)
  finally show ?thesis
    by (simp add: monthly_sales_keyed sorted_groupby_sum distinct_groupby_sum)
qed

theorem monthly_sales_ascending_no_gap_filling_witness:
  "monthly_sales int64_sum (\<lambda>c. c)
       [(Some \<lparr>year = 2023, month = 3, day = 9\<rparr>, 30),
        (Some \<lparr>year = 2023, month = 1, day = 20\<rparr>, 50)]
     = [(\<lparr>year = 2023, month = 1, day = 1\<rparr>, 50), (\<lparr>year = 2023, month = 3, day = 1\<rparr>, 30)]
   \<and> \<lparr>year = 2023, month = 2, day = 1\<rparr> \<notin> fst ` set (monthly_sales int64_sum (\<lambda>c. c)
       [(Some \<lparr>year = 2023, month = 3, day = 9\<rparr>, 30),
        (Some \<lparr>year = 2023, month = 1, day = 20\<rparr>, 50)])"
  using monthly_sales_ascending_no_gap_filling [of int64_sum "\<lambda>c. c"
       "[(Some \<lparr>year = 2023, month = 3, day = 9\<rparr>, 30),
        (Some \<lparr>year = 2023, month = 1, day = 20\<rparr>, 50)]"
       "\<lparr>year = 2023, month = 2, day = 1\<rparr>"]
  by (simp add: monthly_sales_def groupby_sum_def group_cells_def month_column_def
        coerce_dates_def to_month_def int64_sum_def ts_key_def)

text \<open>
  C9: no sales cell is validated. A row with a parsed date hands its sales cell to the
  sum of its month whatever the cell holds. In an integer column a negative value is
  added with its sign (in 64-bit arithmetic). In a floating-point column a missing cell
  is skipped by the sum and leaves the total of the other cells unchanged, and any other
  cell, negative or not, is among the numbers summed, in row order. Which months appear
  does not depend on the sales cells at all.
\<close>

theorem sales_summed_without_validation:
  assumes "to_dt c = Some d"
  shows "map_of (monthly_sales int64_sum to_dt (xs @ (c, v) # ys)) (to_month d)
       = Some (int64_sum (sales_in_month to_dt (xs @ ys) (to_month d)) + v)
     \<and> map_of (monthly_sales (float64_sum isnan fsum) to_dt (fxs @ (c, x) # fys)) (to_month d)
       = Some (if isnan x
               then float64_sum isnan fsum (sales_in_month to_dt (fxs @ fys) (to_month d))
               else fsum (filter (\<lambda>y. \<not> isnan y) (sales_in_month to_dt fxs (to_month d))
                          @ [x] @ filter (\<lambda>y. \<not> isnan y) (sales_in_month to_dt fys (to_month d))))
     \<and> fst ` set (monthly_sales col_sum' to_dt (map (\<lambda>r. (fst r, g (snd r))) rows))
       = fst ` set (monthly_sales col_sum to_dt rows)"
proof (intro conjI)
  have "map_of (monthly_sales int64_sum to_dt (xs @ (c, v) # ys)) (to_month d)
          = Some (int64_sum (sales_in_month to_dt (xs @ (c, v) # ys) (to_month d)))"
    using assms by (simp add: map_of_monthly_sales)
  also have "int64_sum (sales_in_month to_dt (xs @ (c, v) # ys) (to_month d))
          = int64_sum (sales_in_month to_dt (xs @ ys) (to_month d)) + v"
    using assms by (simp add: sales_in_month_append sales_in_month_Cons int64_sum_sum_list)
  finally show "map_of (monthly_sales int64_sum to_dt (xs @ (c, v) # ys)) (to_month d)
       = Some (int64_sum (sales_in_month to_dt (xs @ ys) (to_month d)) + v)" .
next
  have "map_of (monthly_sales (float64_sum isnan fsum) to_dt (fxs @ (c, x) # fys)) (to_month d)
          = Some (float64_sum isnan fsum (sales_in_month to_dt (fxs @ (c, x) # fys) (to_month d)))"
    using assms by (simp add: map_of_monthly_sales)
  then show "map_of (monthly_sales (float64_sum isnan fsum) to_dt (fxs @ (c, x) # fys)) (to_month d)
       = Some (if isnan x
               then float64_sum isnan fsum (sales_in_month to_dt (fxs @ fys) (to_month d))
               else fsum (filter (\<lambda>y. \<not> isnan y) (sales_in_month to_dt fxs (to_month d))
                          @ [x] @ filter (\<lambda>y. \<not> isnan y) (sales_in_month to_dt fys (to_month d))))"
    using assms by (simp add: sales_in_month_append sales_in_month_Cons float64_sum_def)
next
  show "fst ` set (monthly_sales col_sum' to_dt (map (\<lambda>r. (fst r, g (snd r))) rows))
       = fst ` set (monthly_sales col_sum to_dt rows)"
    unfolding keys_monthly_sales_cells by (simp only: set_map image_image fst_conv)
qed

theorem sales_summed_without_validation_witness:
  "map_of (monthly_sales int64_sum (\<lambda>c. c)
       [(Some \<lparr>year = 2023, month = 1, day = 5\<rparr>, 100),
        (Some \<lparr>year = 2023, month = 1, day = 20\<rparr>, - 30),
        (Some \<lparr>year = 2023, month = 1, day = 28\<rparr>, 4)])
      \<lparr>year = 2023, month = 1, day = 1\<rparr> = Some 74
   \<and> map_of (monthly_sales (float64_sum (\<lambda>y. y = None) (\<lambda>ys. Some (sum_list (map the ys)))) (\<lambda>c. c)
       [(Some \<lparr>year = 2023, month = 1, day = 5\<rparr>, Some (100 :: int)),
        (Some \<lparr>year = 2023, month = 1, day = 20\<rparr>, None)])
      \<lparr>year = 2023, month = 1, day = 1\<rparr> = Some (Some 100)"
proof -
  note r = sales_summed_without_validation [where to_dt = "\<lambda>c. c"
      and c = "Some \<lparr>year = 2023, month = 1, day = 20\<rparr>"
      and d = "\<lparr>year = 2023, month = 1, day = 20\<rparr>"
      and xs = "[(Some \<lparr>year = 2023, month = 1, day = 5\<rparr>, 100)]" and v = "- 30"
      and ys = "[(Some \<lparr>year = 2023, month = 1, day = 28\<rparr>, 4)]"
      and isnan = "\<lambda>y. y = None" and fsum = "\<lambda>ys. Some (sum_list (map the ys))"
      and fxs = "[(Some \<lparr>year = 2023, month = 1, day = 5\<rparr>, Some (100 :: int))]"
      and x = None and fys = "[]", OF refl]
  have a: "map_of (monthly_sales int64_sum (\<lambda>c. c)
       [(Some \<lparr>year = 2023, month = 1, day = 5\<rparr>, 100),
        (Some \<lparr>year = 2023, month = 1, day = 20\<rparr>, - 30),
        (Some \<lparr>year = 2023, month = 1, day = 28\<rparr>, 4)])
      \<lparr>year = 2023, month = 1, day = 1\<rparr> = Some 74"
    using r [THEN conjunct1]
    by (simp add: sales_in_month_def to_month_def int64_sum_def)
  have b: "map_of (monthly_sales (float64_sum (\<lambda>y. y = None) (\<lambda>ys. Some (sum_list (map the ys)))) (\<lambda>c. c)
       [(Some \<lparr>year = 2023, month = 1, day = 5\<rparr>, Some (100 :: int)),
        (Some \<lparr>year = 2023, month = 1, day = 20\<rparr>, None)])
      \<lparr>year = 2023, month = 1, day = 1\<rparr> = Some (Some 100)"
    using r [THEN conjunct2, THEN conjunct1]
    by (simp add: sales_in_month_def to_month_def float64_sum_def)
  from a b show ?thesis by blast
qed

text \<open>
  C10: aggregation is idempotent. Running lines 32 to 38 again on the validated rows
  (the frame as line 33 left it, whose dates are timestamps already) gives the same
  series, for every type of column. Aggregating the series itself, read as rows, gives
  the series again: for an integer column always, and for any column whose sum returns
  a single cell unchanged. The aggregation is a function of its rows, so the same rows
  give the same series.
\<close>

theorem monthly_sales_idempotent:
  "monthly_sales col_sum Some (dropna (coerce_dates to_dt rows)) = monthly_sales col_sum to_dt rows
   \<and> monthly_sales int64_sum Some (monthly_sales int64_sum to_dt irows)
       = monthly_sales int64_sum to_dt irows
   \<and> ((\<forall>t. col_sum [t] = t) \<longrightarrow>
        monthly_sales col_sum Some (monthly_sales col_sum to_dt rows)
          = monthly_sales col_sum to_dt rows)"
proof -
  have fixed: "monthly_sales cs Some (monthly_sales cs f rs) = monthly_sales cs f rs"
    if single: "\<And>t. cs [t] = t" for cs :: "'x list \<Rightarrow> 'x" and f :: "'y \<Rightarrow> timestamp option" and rs
  proof -
    let ?ms = "monthly_sales cs f rs"
    have keys: "\<And>m. m \<in> fst ` set ?ms \<Longrightarrow> to_month m = m"
      unfolding keys_monthly_sales by (auto simp: to_month_idem)
    have d: "distinct (map fst ?ms)"
      by (simp add: monthly_sales_keyed distinct_groupby_sum)
    have s: "sorted (map (\<lambda>g. ts_key (fst g)) ?ms)"
      by (simp add: monthly_sales_keyed sorted_keys_groupby_sum)
    have "monthly_sales cs Some ?ms = groupby_sum cs ?ms"
      by (simp only: monthly_sales_keyed [of cs Some] keyed_rows_of_series [OF keys])
    also have "\<dots> = ?ms"
      by (rule groupby_sum_fixed [OF d s single])
    finally show ?thesis .
  qed
  have "monthly_sales col_sum Some (dropna (coerce_dates to_dt rows)) = monthly_sales col_sum to_dt rows"
    by (simp add: monthly_sales_def dropna_coerce_Some)
  moreover have "monthly_sales int64_sum Some (monthly_sales int64_sum to_dt irows)
       = monthly_sales int64_sum to_dt irows"
    by (rule fixed) (rule int64_sum_single)
  moreover have "(\<forall>t. col_sum [t] = t) \<longrightarrow>
        monthly_sales col_sum Some (monthly_sales col_sum to_dt rows)
          = monthly_sales col_sum to_dt rows"
    using fixed [of col_sum to_dt rows] by blast
  ultimately show ?thesis by blast
qed

theorem monthly_sales_idempotent_witness:
  "monthly_sales int64_sum Some (dropna (coerce_dates (\<lambda>c. c)
       [(Some \<lparr>year = 2023, month = 2, day = 1\<rparr>, 200),
        (None, 7),
        (Some \<lparr>year = 2023, month = 1, day = 20\<rparr>, 50)]))
     = [(\<lparr>year = 2023, month = 1, day = 1\<rparr>, 50), (\<lparr>year = 2023, month = 2, day = 1\<rparr>, 200)]
   \<and> monthly_sales int64_sum Some (monthly_sales int64_sum (\<lambda>c. c)
       [(Some \<lparr>year = 2023, month = 2, day = 1\<rparr>, 200),
        (None, 7),
        (Some \<lparr>year = 2023, month = 1, day = 20\<rparr>, 50)])
     = [(\<lparr>year = 2023, month = 1, day = 1\<rparr>, 50), (\<lparr>year = 2023, month = 2, day = 1\<rparr>, 200)]"
proof -
  have ms: "monthly_sales int64_sum (\<lambda>c. c)
       [(Some \<lparr>year = 2023, month = 2, day = 1\<rparr>, 200),
        (None, 7),
        (Some \<lparr>year = 2023, month = 1, day = 20\<rparr>, 50)]
     = [(\<lparr>year = 2023, month = 1, day = 1\<rparr>, 50), (\<lparr>year = 2023, month = 2, day = 1\<rparr>, 200)]"
    by (simp add: monthly_sales_def groupby_sum_def group_cells_def month_column_def
        coerce_dates_def to_month_def int64_sum_def ts_key_def)
  note r = monthly_sales_idempotent [where col_sum = int64_sum and to_dt = "\<lambda>c. c"
      and rows = "[(Some \<lparr>year = 2023, month = 2, day = 1\<rparr>, 200),
        (None, 7),
        (Some \<lparr>year = 2023, month = 1, day = 20\<rparr>, 50)]"
      and irows = "[(Some \<lparr>year = 2023, month = 2, day = 1\<rparr>, 200),
        (None, 7),
        (Some \<lparr>year = 2023, month = 1, day = 20\<rparr>, 50)]"]
  show ?thesis
    using r [THEN conjunct1] r [THEN conjunct2, THEN conjunct1]
    by (simp only: ms)
qed

section \<open>The index of the forecast\<close>

lemma next_month_start_Some:
  assumes "is_month_start d" and "month_ord d + 1 \<le> hi"
  shows "\<exists>d'. next_month_start hi d = Some d' \<and> is_month_start d' \<and> month_ord d' = month_ord d + 1"
  using assms by (auto simp: is_month_start_def next_month_start_def month_ord_def)

lemma next_month_start_None:
  "hi < month_ord d + 1 \<Longrightarrow> next_month_start hi d = None"
  by (simp add: next_month_start_def)

lemma month_starts_from_Some:
  "is_month_start d \<Longrightarrow> month_ord d + n \<le> hi + 1 \<Longrightarrow>
     \<exists>ds. month_starts_from hi d n = Some ds \<and> length ds = n
       \<and> (\<forall>k<n. is_month_start (ds ! k) \<and> month_ord (ds ! k) = month_ord d + k)"
proof (induction hi d n rule: month_starts_from.induct)
  case (1 hi d)
  show ?case by simp
next
  case (2 hi d)
  then show ?case by simp
next
  case (3 hi d n)
  from "3.prems" have "month_ord d + 1 \<le> hi" by simp
  from next_month_start_Some [OF "3.prems"(1) this]
  obtain d' where d': "next_month_start hi d = Some d'" "is_month_start d'"
    "month_ord d' = month_ord d + 1"
    by blast
  from "3.prems"(2) d'(3) have b: "month_ord d' + Suc n \<le> hi + 1" by simp
  from "3.IH" [OF d'(1) d'(2) b]
  obtain ds where ds: "month_starts_from hi d' (Suc n) = Some ds" "length ds = Suc n"
    "\<forall>k<Suc n. is_month_start (ds ! k) \<and> month_ord (ds ! k) = month_ord d' + k"
    by blast
  have "\<forall>k<Suc (Suc n). is_month_start ((d # ds) ! k) \<and> month_ord ((d # ds) ! k) = month_ord d + k"
  proof (intro allI impI)
    fix k assume k: "k < Suc (Suc n)"
    show "is_month_start ((d # ds) ! k) \<and> month_ord ((d # ds) ! k) = month_ord d + k"
    proof (cases k)
      case 0
      then show ?thesis using "3.prems"(1) by simp
    next
      case (Suc j)
      with k have "j < Suc n" by simp
      with ds(3) have "is_month_start (ds ! j) \<and> month_ord (ds ! j) = month_ord d' + j"
        by blast
      then show ?thesis by (simp add: Suc d'(3))
    qed
  qed
  then show ?case
    using d'(1) ds(1,2) by simp
qed

lemma month_starts_from_None:
  "is_month_start d \<Longrightarrow> hi + 1 < month_ord d + n \<Longrightarrow> month_ord d \<le> hi \<Longrightarrow>
     month_starts_from hi d n = None"
proof (induction hi d n rule: month_starts_from.induct)
  case (1 hi d)
  then show ?case by simp
next
  case (2 hi d)
  then show ?case by simp
next
  case (3 hi d n)
  show ?case
  proof (cases "month_ord d + 1 \<le> hi")
    case False
    then show ?thesis by (simp add: next_month_start_None)
  next
    case True
    from next_month_start_Some [OF "3.prems"(1) True]
    obtain d' where d': "next_month_start hi d = Some d'" "is_month_start d'"
      "month_ord d' = month_ord d + 1"
      by blast
    from "3.prems"(2) d'(3) have b: "hi + 1 < month_ord d' + Suc n" by simp
    from True d'(3) have c: "month_ord d' \<le> hi" by simp
    from "3.IH" [OF d'(1) d'(2) b c] show ?thesis
      by (simp add: d'(1))
  qed
qed

lemma days_in_month_pos: "1 \<le> days_in_month y m"
  by (simp add: days_in_month_def)

lemma date_offset_one_month:
  assumes "is_month_start d"
  shows "date_offset_months hi 1 d = next_month_start hi d"
proof (cases "month d = 12")
  case True
  have "(year d * 12 + 12) div 12 = year d + 1" by simp
  moreover have "(year d * 12 + 12) mod 12 = 0" by simp
  ultimately show ?thesis
    using assms True days_in_month_pos
    by (simp add: date_offset_months_def next_month_start_def is_month_start_def month_ord_def
        Let_def min_def)
next
  case False
  with assms have m: "month d < 12" "1 \<le> month d" "day d = 1"
    by (auto simp: is_month_start_def)
  have "(year d * 12 + (month d - 1) + 1) div 12 = year d"
    using m by simp
  moreover have "(year d * 12 + (month d - 1) + 1) mod 12 = month d"
    using m by simp
  ultimately show ?thesis
    using m False days_in_month_pos
    by (simp add: date_offset_months_def next_month_start_def month_ord_def Let_def min_def)
qed

lemma rollforward_month_start: "is_month_start d \<Longrightarrow> rollforward hi d = Some d"
  by (simp add: rollforward_def is_month_start_def)

lemma forecast_index_Inr:
  assumes "ms \<noteq> []" and "is_month_start (fst (last ms))"
    and "month_ord (fst (last ms)) + 12 \<le> hi"
  shows "\<exists>idx. forecast_index hi msg ms = Inr idx \<and> length idx = 12
           \<and> (\<forall>k<12. is_month_start (idx ! k)
                 \<and> month_ord (idx ! k) = month_ord (fst (last ms)) + 1 + k)"
proof -
  let ?l = "fst (last ms)"
  have i: "index_last ms = Inr ?l"
    using assms(1) by (simp add: index_last_def)
  from assms(3) have "month_ord ?l + 1 \<le> hi" by simp
  from next_month_start_Some [OF assms(2) this]
  obtain s where s: "next_month_start hi ?l = Some s" "is_month_start s"
    "month_ord s = month_ord ?l + 1"
    by blast
  have o: "date_offset_months hi 1 ?l = Some s"
    by (simp only: date_offset_one_month [OF assms(2)] s(1))
  from assms(3) s(3) have "month_ord s + 12 \<le> hi + 1" by simp
  from month_starts_from_Some [OF s(2) this]
  obtain idx where idx: "month_starts_from hi s 12 = Some idx" "length idx = 12"
    "\<forall>k<12. is_month_start (idx ! k) \<and> month_ord (idx ! k) = month_ord s + k"
    by blast
  have "forecast_index hi msg ms = Inr idx"
    by (simp only: forecast_index_def i sum.case o option.case date_range_def
        rollforward_month_start [OF s(2)] forecast_steps_def idx(1))
  then show ?thesis
    using idx(2,3) s(3) by simp
qed

lemma forecast_index_out_of_bounds:
  assumes "ms \<noteq> []" and "is_month_start (fst (last ms))"
    and "hi < month_ord (fst (last ms)) + 12"
  shows "forecast_index hi msg ms = Inl msg"
proof -
  let ?l = "fst (last ms)"
  have i: "index_last ms = Inr ?l"
    using assms(1) by (simp add: index_last_def)
  show ?thesis
  proof (cases "month_ord ?l + 1 \<le> hi")
    case False
    then have "hi < month_ord ?l + 1" by simp
    then have "date_offset_months hi 1 ?l = None"
      by (simp only: date_offset_one_month [OF assms(2)] next_month_start_None)
    then show ?thesis
      by (simp only: forecast_index_def i sum.case option.case)
  next
    case True
    from next_month_start_Some [OF assms(2) True]
    obtain s where s: "next_month_start hi ?l = Some s" "is_month_start s"
      "month_ord s = month_ord ?l + 1"
      by blast
    have o: "date_offset_months hi 1 ?l = Some s"
      by (simp only: date_offset_one_month [OF assms(2)] s(1))
    from assms(3) s(3) have a: "hi + 1 < month_ord s + 12" by simp
    from True s(3) have b: "month_ord s \<le> hi" by simp
    have "month_starts_from hi s 12 = None"
      by (rule month_starts_from_None [OF s(2) a b])
    then show ?thesis
      by (simp only: forecast_index_def i sum.case o option.case date_range_def
          rollforward_month_start [OF s(2)] forecast_steps_def)
  qed
qed

lemma forecast_index_empty:
  "forecast_index hi msg [] = Inl ''index -1 is out of bounds for axis 0 with size 0''"
  by (simp add: forecast_index_def index_last_def)

lemma monthly_sales_month_starts:
  assumes "\<And>r d. r \<in> set rows \<Longrightarrow> f (fst r) = Some d \<Longrightarrow> valid_date d"
    and "m \<in> fst ` set (monthly_sales cs f rows)"
  shows "is_month_start m"
proof -
  from assms(2) obtain r where r: "r \<in> set rows" "map_option to_month (f (fst r)) = Some m"
    unfolding keys_monthly_sales by blast
  then obtain d where d: "f (fst r) = Some d" "m = to_month d"
    by (cases "f (fst r)") auto
  from assms(1) [OF r(1) d(1)] show ?thesis
    by (simp add: d(2) to_month_def valid_date_def is_month_start_def)
qed

lemma month_starts_from_Suc:
  "month_starts_from hi d (Suc n) =
     (if n = 0 then Some [d]
      else case next_month_start hi d of
             None \<Rightarrow> None
           | Some d' \<Rightarrow>
               (case month_starts_from hi d' n of
                  None \<Rightarrow> None
                | Some ds \<Rightarrow> Some (d # ds)))"
  by (cases n) auto

lemma month_starts_from_numeral:
  "month_starts_from hi d (numeral n) =
     (if pred_numeral n = 0 then Some [d]
      else case next_month_start hi d of
             None \<Rightarrow> None
           | Some d' \<Rightarrow>
               (case month_starts_from hi d' (pred_numeral n) of
                  None \<Rightarrow> None
                | Some ds \<Rightarrow> Some (d # ds)))"
  using month_starts_from_Suc [of hi d "pred_numeral n"] by (simp add: numeral_eq_Suc)

section \<open>The encoding\<close>

lemma choose_encoding_cases:
  "choose_encoding detected =
     (case detected of None \<Rightarrow> ''ISO-8859-1''
      | Some e \<Rightarrow> if e = [] \<or> lower e = ''johab'' then ''ISO-8859-1'' else e)"
  by (simp add: choose_encoding_def split: option.splits)

lemma choose_encoding_nonempty: "choose_encoding detected \<noteq> []"
  by (simp add: choose_encoding_cases split: option.splits)

lemma forecast_stage_columns:
  "St_error_columns cs \<notin> set out \<Longrightarrow> St_error_columns cs \<notin> set (fst (forecast_stage L ms out))"
  by (simp add: forecast_stage_def split: sum.splits)

lemma forecast_stage_not_stopped: "snd (forecast_stage L ms out) \<noteq> Inl StopException"
  by (simp add: forecast_stage_def split: sum.splits)

lemma shown_script:
  "shown (script L (Some raw)) =
     (case try_block L raw of
        (out, Inr f) \<Rightarrow> out @ [St_download_button f]
      | (out, Inl (Exception e)) \<Rightarrow> out @ [St_error_exception e]
      | (out, Inl StopException) \<Rightarrow> out)"
  by (simp add: script_def download_button_def split: prod.splits sum.splits raised.splits)

lemma decode_error_shown:
  assumes "decode L (choose_encoding (chardet_detect L raw)) raw = Inl msg"
  shows "shown (script L (Some raw)) = [St_error_exception msg]"
  using assms by (simp add: shown_script try_block_def read_csv_def)

text \<open>
  C8, as the code has it: choosing the encoding is a total function that always returns
  a name. When the detector returns no result, an empty name, or \<^verbatim>\<open>johab\<close> in any
  letter case, the name is ISO-8859-1, and decoding the uploaded bytes with it cannot
  fail, whatever the bytes. Any other name of the detector is used as it is; when
  decoding with it raises, the exception is caught and its message is shown as the
  generic error.
\<close>

theorem fallback_or_detected_encoding:
  "choose_encoding detected \<noteq> []
   \<and> (case chardet_detect L raw of
        None \<Rightarrow>
          choose_encoding (chardet_detect L raw) = ''ISO-8859-1''
          \<and> decode L (choose_encoding (chardet_detect L raw)) raw = Inr (map unat raw)
      | Some e \<Rightarrow>
          if e = [] \<or> lower e = ''johab''
          then choose_encoding (chardet_detect L raw) = ''ISO-8859-1''
               \<and> decode L (choose_encoding (chardet_detect L raw)) raw = Inr (map unat raw)
          else choose_encoding (chardet_detect L raw) = e)
   \<and> (decode L (choose_encoding (chardet_detect L raw)) raw = Inl msg
        \<longrightarrow> shown (script L (Some raw)) = [St_error_exception msg])"
proof (intro conjI)
  show "choose_encoding detected \<noteq> []"
    by (rule choose_encoding_nonempty)
next
  show "case chardet_detect L raw of
        None \<Rightarrow>
          choose_encoding (chardet_detect L raw) = ''ISO-8859-1''
          \<and> decode L (choose_encoding (chardet_detect L raw)) raw = Inr (map unat raw)
      | Some e \<Rightarrow>
          if e = [] \<or> lower e = ''johab''
          then choose_encoding (chardet_detect L raw) = ''ISO-8859-1''
               \<and> decode L (choose_encoding (chardet_detect L raw)) raw = Inr (map unat raw)
          else choose_encoding (chardet_detect L raw) = e"
    by (cases "chardet_detect L raw")
      (auto simp: choose_encoding_cases decode_def latin1_decode_def)
next
  show "decode L (choose_encoding (chardet_detect L raw)) raw = Inl msg
        \<longrightarrow> shown (script L (Some raw)) = [St_error_exception msg]"
    using decode_error_shown [of L raw msg] by blast
qed

theorem fallback_or_detected_encoding_witness:
  "decode (stub_library \<lparr>columns = [], data_rows = []\<rparr> (\<lambda>ms. Inr ())
            \<lparr>chardet_detect := (\<lambda>raw. Some ''JOHAB'')\<rparr>)
      (choose_encoding (Some ''JOHAB'')) [255, 0, 65] = Inr [255, 0, 65]
   \<and> choose_encoding (Some ''JOHAB'') = ''ISO-8859-1''"
proof -
  let ?L = "stub_library \<lparr>columns = [], data_rows = []\<rparr> (\<lambda>ms. Inr ())
            \<lparr>chardet_detect := (\<lambda>raw. Some ''JOHAB'')\<rparr>"
  have d: "chardet_detect ?L [255, 0, 65] = Some ''JOHAB''"
    by (simp add: stub_library_def)
  have j: "lower ''JOHAB'' = ''johab''"
    by (simp add: lower_def lower_char_def)
  then have cond: "''JOHAB'' = [] \<or> lower ''JOHAB'' = ''johab''"
    by blast
  note r = fallback_or_detected_encoding [where L = ?L and raw = "[255, 0, 65]",
      THEN conjunct2, THEN conjunct1]
  have c: "choose_encoding (Some ''JOHAB'') = ''ISO-8859-1''
        \<and> decode ?L (choose_encoding (Some ''JOHAB'')) [255, 0, 65] = Inr (map unat [255, 0, 65 :: byte])"
    using r cond by (simp only: d option.case if_P) (elim conjE, simp)
  have m: "map unat [255, 0, 65 :: byte] = [255, 0, 65]"
    by simp
  from c show ?thesis
    unfolding m by blast
qed

text \<open>
  Decoding does not succeed for every byte sequence: with a detector that answers
  Windows-1252 for an upload holding the byte 0x81, which that encoding does not map,
  decoding raises and the run shows the message of the exception.
\<close>

theorem detected_encoding_can_fail_to_decode:
  "shown (script
     (stub_library \<lparr>columns = [''ORDERDATE'', ''SALES''], data_rows = []\<rparr> (\<lambda>ms. Inr ())
        \<lparr>chardet_detect := (\<lambda>raw. Some ''Windows-1252''),
         codec_decode := (\<lambda>encoding raw.
            if 129 \<in> set raw then Inl ''codec can't decode byte 0x81''
            else Inr (map unat raw))\<rparr>)
     (Some (ascii_bytes ''ORDERDATE,SALES'' @ [129])))
   = [St_error_exception ''codec can't decode byte 0x81'']"
  by (simp add: shown_script try_block_def read_csv_def decode_def choose_encoding_def
      stub_library_def lower_def lower_char_def)

section \<open>The run of the script\<close>

text \<open>
  C3, as the code has it: once the table is parsed, the script checks that columns named
  exactly \<^verbatim>\<open>ORDERDATE\<close> and \<^verbatim>\<open>SALES\<close> (case-sensitive) are both present. If one is
  absent, the run shows a single error and is stopped by \<^verbatim>\<open>st.stop()\<close>: nothing else
  is shown, and nothing is retried. The error names the whole set of required columns,
  both of them, whichever is missing. If both are present, no such error is shown and
  the run is not stopped.
\<close>

theorem missing_required_column_stops_run:
  assumes "read_csv L raw (choose_encoding (chardet_detect L raw)) = Inr df"
  shows "if {''ORDERDATE'', ''SALES''} \<subseteq> set (columns df)
         then St_error_columns cs \<notin> set (shown (script L (Some raw)))
              \<and> ending (script L (Some raw)) \<noteq> Stopped
         else script L (Some raw)
                = \<lparr>shown = [St_error_columns {''ORDERDATE'', ''SALES''}], ending = Stopped\<rparr>"
proof (cases "{''ORDERDATE'', ''SALES''} \<subseteq> set (columns df)")
  case False
  then have "\<not> required_cols \<subseteq> set (columns df)"
    unfolding required_cols_def .
  then have "script L (Some raw)
                = \<lparr>shown = [St_error_columns {''ORDERDATE'', ''SALES''}], ending = Stopped\<rparr>"
    using assms by (simp add: script_def try_block_def) (simp add: required_cols_def)
  then show ?thesis using False by (simp only: if_False simp_thms)
next
  case True
  then have req: "required_cols \<subseteq> set (columns df)"
    unfolding required_cols_def .
  let ?ms = "monthly_sales (column_sum L) (parse_datetime L) (data_rows df)"
  let ?st = "forecast_stage L ?ms [St_success, St_line_chart ?ms]"
  have t: "try_block L raw = ?st"
    using assms req by (simp add: try_block_def)
  have a: "St_error_columns cs \<notin> set (fst ?st)"
    by (rule forecast_stage_columns) simp
  have b: "snd ?st \<noteq> Inl StopException"
    by (rule forecast_stage_not_stopped)
  obtain out r where st: "?st = (out, r)" by (cases ?st)
  have "St_error_columns cs \<notin> set (shown (script L (Some raw)))"
    using a by (cases r; simp add: shown_script t st split: raised.splits)
  moreover have "ending (script L (Some raw)) \<noteq> Stopped"
    using b by (cases r; simp add: script_def download_button_def t st split: raised.splits)
  ultimately show ?thesis using True by (simp only: if_True simp_thms)
qed

theorem missing_required_column_stops_run_witness:
  "script (stub_library \<lparr>columns = [''orderdate'', ''SALES''], data_rows = []\<rparr> (\<lambda>ms. Inr ()))
      (Some (ascii_bytes ''orderdate,SALES''))
    = \<lparr>shown = [St_error_columns {''ORDERDATE'', ''SALES''}], ending = Stopped\<rparr>"
proof -
  let ?df = "\<lparr>columns = [''orderdate'', ''SALES''], data_rows = []\<rparr> :: (timestamp option, int64) dataframe"
  let ?L = "stub_library ?df (\<lambda>ms. Inr ())"
  let ?raw = "ascii_bytes ''orderdate,SALES''"
  have h: "read_csv ?L ?raw (choose_encoding (chardet_detect ?L ?raw)) = Inr ?df"
    by (simp add: read_csv_def decode_def choose_encoding_def stub_library_def)
  show ?thesis
    using missing_required_column_stops_run [OF h] by simp
qed

text \<open>
  The error does not name the missing columns: for a table with the columns
  \<^verbatim>\<open>ORDERDATE\<close> and \<^verbatim>\<open>PRICE\<close> only \<^verbatim>\<open>SALES\<close> is missing, and the error names
  \<^verbatim>\<open>ORDERDATE\<close> and \<^verbatim>\<open>SALES\<close>. A table whose columns are named \<^verbatim>\<open>order date\<close> and
  \<^verbatim>\<open>sales\<close> is refused as well.
\<close>

theorem error_names_required_not_missing_columns:
  "script (stub_library \<lparr>columns = [''ORDERDATE'', ''PRICE''], data_rows = []\<rparr> (\<lambda>ms. Inr ()))
      (Some (ascii_bytes ''ORDERDATE,PRICE''))
    = \<lparr>shown = [St_error_columns {''ORDERDATE'', ''SALES''}], ending = Stopped\<rparr>
   \<and> required_cols - set [''ORDERDATE'', ''PRICE''] = {''SALES''}
   \<and> St_error_columns {''ORDERDATE'', ''SALES''} \<noteq> (St_error_columns {''SALES''} :: (int64, unit) display)
   \<and> script (stub_library \<lparr>columns = [''order date'', ''sales''], data_rows = []\<rparr> (\<lambda>ms. Inr ()))
      (Some (ascii_bytes ''order date,sales''))
    = \<lparr>shown = [St_error_columns {''ORDERDATE'', ''SALES''}], ending = Stopped\<rparr>"
  by (auto simp: script_def try_block_def read_csv_def decode_def choose_encoding_def
      stub_library_def required_cols_def)

lemma keyed_rows_no_dates:
  "\<forall>r\<in>set rows. f (fst r) = None \<Longrightarrow> keyed_rows f rows = []"
  by (simp add: keyed_rows_filter)

lemma monthly_sales_no_dates:
  "\<forall>r\<in>set rows. f (fst r) = None \<Longrightarrow> monthly_sales cs f rows = []"
  by (simp add: monthly_sales_keyed keyed_rows_no_dates groupby_sum_def group_cells_def)

text \<open>
  C4, as the code has it: the script has no check for an empty series. When no row has
  a date that parses (a file of the header only included), the series is empty, the
  success message and the chart of the empty series are shown, and the empty series is
  handed to the fit. What is shown next is the generic error of line 74, with the
  message of whichever exception comes first: that of the fit, that of the forecast, or
  the \<^verbatim>\<open>IndexError\<close> of reading the last index of the empty series.
\<close>

theorem empty_series_reaches_fit_and_generic_error:
  assumes "read_csv L raw (choose_encoding (chardet_detect L raw)) = Inr df"
      and "required_cols \<subseteq> set (columns df)"
      and "\<forall>r\<in>set (data_rows df). parse_datetime L (fst r) = None"
  shows "monthly_sales (column_sum L) (parse_datetime L) (data_rows df) = []
       \<and> shown (script L (Some raw))
          = [St_success, St_line_chart [],
             St_error_exception
               (case sarimax_fit L [] of
                  Inl e \<Rightarrow> e
                | Inr results \<Rightarrow>
                    (case get_forecast L results 12 of
                       Inl e \<Rightarrow> e
                     | Inr forecast \<Rightarrow> ''index -1 is out of bounds for axis 0 with size 0''))]"
proof -
  have ms: "monthly_sales (column_sum L) (parse_datetime L) (data_rows df) = []"
    by (rule monthly_sales_no_dates [OF assms(3)])
  have t: "try_block L raw = forecast_stage L [] [St_success, St_line_chart []]"
    using assms(1,2) by (simp add: try_block_def ms)
  show ?thesis
    by (simp add: ms shown_script t forecast_stage_def forecast_index_empty forecast_steps_def
        split: sum.splits)
qed

theorem empty_series_reaches_fit_and_generic_error_witness:
  "shown (script (stub_library \<lparr>columns = [''ORDERDATE'', ''SALES''], data_rows = [(None, 5)]\<rparr>
                    (\<lambda>ms. Inl ''fit failed''))
            (Some (ascii_bytes (''ORDERDATE,SALES'' @ [CHR 0x0A] @ ''n/a,5''))))
    = [St_success, St_line_chart [], St_error_exception ''fit failed'']"
proof -
  let ?df = "\<lparr>columns = [''ORDERDATE'', ''SALES''], data_rows = [(None, 5)]\<rparr> :: (timestamp option, int64) dataframe"
  let ?L = "stub_library ?df (\<lambda>ms. Inl ''fit failed'')"
  let ?raw = "ascii_bytes (''ORDERDATE,SALES'' @ [CHR 0x0A] @ ''n/a,5'')"
  have h: "read_csv ?L ?raw (choose_encoding (chardet_detect ?L ?raw)) = Inr ?df"
    by (simp add: read_csv_def decode_def choose_encoding_def stub_library_def)
  have c: "required_cols \<subseteq> set (columns ?df)"
    by (simp add: required_cols_def)
  have n: "\<forall>r\<in>set (data_rows ?df). parse_datetime ?L (fst r) = None"
    by (simp add: stub_library_def)
  have f: "sarimax_fit ?L [] = Inl ''fit failed''"
    by (simp add: stub_library_def)
  show ?thesis
    using empty_series_reaches_fit_and_generic_error [OF h c n, THEN conjunct2]
    by (simp only: f sum.case)
qed

text \<open>
  No error kind of its own is reported for the empty series: with a fit that raises on
  it, the message of the fit is shown as the generic error; with a fit and a forecast
  that accept it, the generic error is the \<^verbatim>\<open>IndexError\<close> of line 51.
\<close>

theorem no_data_quality_error_on_empty_series:
  "shown (script (stub_library \<lparr>columns = [''ORDERDATE'', ''SALES''], data_rows = []\<rparr>
                    (\<lambda>ms. if ms = [] then Inl ''zero-size array'' else Inr ()))
            (Some (ascii_bytes ''ORDERDATE,SALES'')))
    = [St_success, St_line_chart [], St_error_exception ''zero-size array'']
   \<and> shown (script (stub_library \<lparr>columns = [''ORDERDATE'', ''SALES''], data_rows = [(None, 5)]\<rparr>
                    (\<lambda>ms. Inr ()))
            (Some (ascii_bytes (''ORDERDATE,SALES'' @ [CHR 0x0A] @ ''n/a,5''))))
    = [St_success, St_line_chart [],
       St_error_exception ''index -1 is out of bounds for axis 0 with size 0'']"
  by (simp add: shown_script try_block_def read_csv_def decode_def choose_encoding_def
      stub_library_def required_cols_def forecast_stage_def monthly_sales_def groupby_sum_def
      group_cells_def month_column_def coerce_dates_def forecast_index_empty)

lemma caught_exception_then_uncaught_name_error:
  "try_block L raw = (out, Inl (Exception e)) \<Longrightarrow>
     script L (Some raw)
       = \<lparr>shown = out @ [St_error_exception e],
          ending = Uncaught ''name 'forecast_df' is not defined''\<rparr>"
  by (simp add: script_def download_button_def)

lemma successful_run_completes:
  "try_block L raw = (out, Inr f) \<Longrightarrow>
     script L (Some raw) = \<lparr>shown = out @ [St_download_button f], ending = Completed\<rparr>"
  by (simp add: script_def download_button_def)

text \<open>
  C5: an exception raised inside the \<^verbatim>\<open>try\<close> block is caught and shown as the
  generic error with its message. The download button of lines 81 to 86 is outside the
  block and reads \<^verbatim>\<open>forecast_df\<close>, which is bound only when the forecast succeeded:
  before any upload, and after every caught failure, a \<^verbatim>\<open>NameError\<close> leaves the script
  uncaught.
\<close>

theorem name_error_escapes_the_script:
  "script L None = \<lparr>shown = [St_info], ending = Uncaught ''name 'forecast_df' is not defined''\<rparr>
   \<and> script (stub_library \<lparr>columns = [''ORDERDATE'', ''SALES''], data_rows = []\<rparr>
               (\<lambda>ms. Inl ''zero-size array''))
        (Some (ascii_bytes ''ORDERDATE,SALES''))
      = \<lparr>shown = [St_success, St_line_chart [], St_error_exception ''zero-size array''],
         ending = Uncaught ''name 'forecast_df' is not defined''\<rparr>"
  by (simp add: script_def download_button_def try_block_def read_csv_def decode_def
      choose_encoding_def stub_library_def required_cols_def forecast_stage_def monthly_sales_def
      groupby_sum_def group_cells_def month_column_def coerce_dates_def)

lemma forecast_stage_twelve_months:
  assumes "ms \<noteq> []" and "is_month_start (fst (last ms))"
    and "sarimax_fit L ms = Inr results"
    and "get_forecast L results 12 = Inr forecast"
    and "month_ord (fst (last ms)) + 12 \<le> last_month L"
  shows "\<exists>idx. forecast_stage L ms out
             = (out @ [St_write \<lparr>frame_index = idx, forecast_values = forecast\<rparr>, St_pyplot],
                Inr \<lparr>frame_index = idx, forecast_values = forecast\<rparr>)
           \<and> length idx = 12
           \<and> (\<forall>k<12. is_month_start (idx ! k)
                 \<and> month_ord (idx ! k) = month_ord (fst (last ms)) + 1 + k)"
proof -
  from forecast_index_Inr [OF assms(1,2,5), of "out_of_bounds L"]
  obtain idx where idx: "forecast_index (last_month L) (out_of_bounds L) ms = Inr idx"
    "length idx = 12"
    "\<forall>k<12. is_month_start (idx ! k) \<and> month_ord (idx ! k) = month_ord (fst (last ms)) + 1 + k"
    by blast
  have "forecast_stage L ms out
             = (out @ [St_write \<lparr>frame_index = idx, forecast_values = forecast\<rparr>, St_pyplot],
                Inr \<lparr>frame_index = idx, forecast_values = forecast\<rparr>)"
    using assms(3,4) idx(1) by (simp add: forecast_stage_def forecast_steps_def)
  with idx(2,3) show ?thesis by blast
qed

lemma forecast_stage_out_of_bounds:
  assumes "ms \<noteq> []" and "is_month_start (fst (last ms))"
    and "sarimax_fit L ms = Inr results"
    and "get_forecast L results 12 = Inr forecast"
    and "last_month L < month_ord (fst (last ms)) + 12"
  shows "forecast_stage L ms out = (out, Inl (Exception (out_of_bounds L)))"
  using assms(3,4) forecast_index_out_of_bounds [OF assms(1,2,5), of "out_of_bounds L"]
  by (simp add: forecast_stage_def forecast_steps_def)

text \<open>
  C1, as the code has it: when the upload parses, has both columns and at least one row
  with a date, the fit and the forecast call succeed, and the last month of the series
  lies at least 12 months before the last month that a timestamp can hold, the run
  completes and shows the frame of the forecast, whose index has exactly 12 entries;
  entry \<open>k\<close> is the first day of the month that lies \<open>k + 1\<close> months after the last
  month of the series. So the index starts at the month after the last one and advances
  by one month per step without a gap. A series ending at 2024-12-01 gives 2025-01-01 to
  2025-12-01 in order.
\<close>

theorem forecast_of_the_twelve_following_months:
  assumes "read_csv L raw (choose_encoding (chardet_detect L raw)) = Inr df"
      and "required_cols \<subseteq> set (columns df)"
      and "\<forall>r\<in>set (data_rows df). \<forall>d. parse_datetime L (fst r) = Some d \<longrightarrow> valid_date d"
      and "ms = monthly_sales (column_sum L) (parse_datetime L) (data_rows df)"
      and "ms \<noteq> []"
      and "sarimax_fit L ms = Inr results"
      and "get_forecast L results 12 = Inr forecast"
      and "month_ord (fst (last ms)) + 12 \<le> last_month L"
  shows "(\<exists>idx. script L (Some raw)
             = \<lparr>shown = [St_success, St_line_chart ms,
                         St_write \<lparr>frame_index = idx, forecast_values = forecast\<rparr>, St_pyplot,
                         St_download_button \<lparr>frame_index = idx, forecast_values = forecast\<rparr>],
                ending = Completed\<rparr>
           \<and> length idx = 12
           \<and> (\<forall>k<12. is_month_start (idx ! k)
                 \<and> month_ord (idx ! k) = month_ord (fst (last ms)) + 1 + k))
       \<and> forecast_index (month_ord \<lparr>year = 2025, month = 12, day = 1\<rparr> + n) msg
           [(\<lparr>year = 2024, month = 12, day = 1\<rparr>, v)]
         = Inr [\<lparr>year = 2025, month = 1, day = 1\<rparr>, \<lparr>year = 2025, month = 2, day = 1\<rparr>,
                \<lparr>year = 2025, month = 3, day = 1\<rparr>, \<lparr>year = 2025, month = 4, day = 1\<rparr>,
                \<lparr>year = 2025, month = 5, day = 1\<rparr>, \<lparr>year = 2025, month = 6, day = 1\<rparr>,
                \<lparr>year = 2025, month = 7, day = 1\<rparr>, \<lparr>year = 2025, month = 8, day = 1\<rparr>,
                \<lparr>year = 2025, month = 9, day = 1\<rparr>, \<lparr>year = 2025, month = 10, day = 1\<rparr>,
                \<lparr>year = 2025, month = 11, day = 1\<rparr>, \<lparr>year = 2025, month = 12, day = 1\<rparr>]"
proof
  have "fst (last ms) \<in> fst ` set ms"
    using assms(5) by simp
  then have mem: "fst (last ms) \<in> fst ` set (monthly_sales (column_sum L) (parse_datetime L) (data_rows df))"
    by (simp only: assms(4))
  have valid: "\<And>r d. r \<in> set (data_rows df) \<Longrightarrow> parse_datetime L (fst r) = Some d \<Longrightarrow> valid_date d"
    using assms(3) by blast
  have start: "is_month_start (fst (last ms))"
    by (rule monthly_sales_month_starts [OF valid mem])
  from forecast_stage_twelve_months [OF assms(5) start assms(6,7,8), of "[St_success, St_line_chart ms]"]
  obtain idx where idx: "forecast_stage L ms [St_success, St_line_chart ms]
             = ([St_success, St_line_chart ms]
                  @ [St_write \<lparr>frame_index = idx, forecast_values = forecast\<rparr>, St_pyplot],
                Inr \<lparr>frame_index = idx, forecast_values = forecast\<rparr>)"
    "length idx = 12"
    "\<forall>k<12. is_month_start (idx ! k) \<and> month_ord (idx ! k) = month_ord (fst (last ms)) + 1 + k"
    by blast
  have "try_block L raw = forecast_stage L ms [St_success, St_line_chart ms]"
    using assms(1,2) by (simp add: try_block_def assms(4))
  then have "script L (Some raw)
             = \<lparr>shown = [St_success, St_line_chart ms,
                         St_write \<lparr>frame_index = idx, forecast_values = forecast\<rparr>, St_pyplot,
                         St_download_button \<lparr>frame_index = idx, forecast_values = forecast\<rparr>],
                ending = Completed\<rparr>"
    by (simp add: script_def download_button_def idx(1))
  with idx(2,3) show "\<exists>idx. script L (Some raw)
             = \<lparr>shown = [St_success, St_line_chart ms,
                         St_write \<lparr>frame_index = idx, forecast_values = forecast\<rparr>, St_pyplot,
                         St_download_button \<lparr>frame_index = idx, forecast_values = forecast\<rparr>],
                ending = Completed\<rparr>
           \<and> length idx = 12
           \<and> (\<forall>k<12. is_month_start (idx ! k)
                 \<and> month_ord (idx ! k) = month_ord (fst (last ms)) + 1 + k)"
    by blast
next
  show "forecast_index (month_ord \<lparr>year = 2025, month = 12, day = 1\<rparr> + n) msg
           [(\<lparr>year = 2024, month = 12, day = 1\<rparr>, v)]
         = Inr [\<lparr>year = 2025, month = 1, day = 1\<rparr>, \<lparr>year = 2025, month = 2, day = 1\<rparr>,
                \<lparr>year = 2025, month = 3, day = 1\<rparr>, \<lparr>year = 2025, month = 4, day = 1\<rparr>,
                \<lparr>year = 2025, month = 5, day = 1\<rparr>, \<lparr>year = 2025, month = 6, day = 1\<rparr>,
                \<lparr>year = 2025, month = 7, day = 1\<rparr>, \<lparr>year = 2025, month = 8, day = 1\<rparr>,
                \<lparr>year = 2025, month = 9, day = 1\<rparr>, \<lparr>year = 2025, month = 10, day = 1\<rparr>,
                \<lparr>year = 2025, month = 11, day = 1\<rparr>, \<lparr>year = 2025, month = 12, day = 1\<rparr>]"
    by (simp add: forecast_index_def index_last_def date_range_def rollforward_def
        forecast_steps_def date_offset_months_def days_in_month_def is_leap_def
        next_month_start_def month_ord_def Let_def month_starts_from_numeral)
qed

theorem forecast_of_the_twelve_following_months_witness:
  "script (stub_library \<lparr>columns = [''ORDERDATE'', ''SALES''],
                         data_rows = [(Some \<lparr>year = 2024, month = 11, day = 3\<rparr>, 10),
                                      (Some \<lparr>year = 2024, month = 12, day = 15\<rparr>, 20)]\<rparr>
             (\<lambda>ms. Inr ()))
      (Some (ascii_bytes (''ORDERDATE,SALES'' @ [CHR 0x0A] @ ''2024-11-03,10''
                            @ [CHR 0x0A] @ ''2024-12-15,20'')))
    = \<lparr>shown = [St_success,
                St_line_chart [(\<lparr>year = 2024, month = 11, day = 1\<rparr>, 10),
                               (\<lparr>year = 2024, month = 12, day = 1\<rparr>, 20)],
                St_write \<lparr>frame_index =
                    [\<lparr>year = 2025, month = 1, day = 1\<rparr>, \<lparr>year = 2025, month = 2, day = 1\<rparr>,
                     \<lparr>year = 2025, month = 3, day = 1\<rparr>, \<lparr>year = 2025, month = 4, day = 1\<rparr>,
                     \<lparr>year = 2025, month = 5, day = 1\<rparr>, \<lparr>year = 2025, month = 6, day = 1\<rparr>,
                     \<lparr>year = 2025, month = 7, day = 1\<rparr>, \<lparr>year = 2025, month = 8, day = 1\<rparr>,
                     \<lparr>year = 2025, month = 9, day = 1\<rparr>, \<lparr>year = 2025, month = 10, day = 1\<rparr>,
                     \<lparr>year = 2025, month = 11, day = 1\<rparr>, \<lparr>year = 2025, month = 12, day = 1\<rparr>],
                  forecast_values = ()\<rparr>,
                St_pyplot,
                St_download_button \<lparr>frame_index =
                    [\<lparr>year = 2025, month = 1, day = 1\<rparr>, \<lparr>year = 2025, month = 2, day = 1\<rparr>,
                     \<lparr>year = 2025, month = 3, day = 1\<rparr>, \<lparr>year = 2025, month = 4, day = 1\<rparr>,
                     \<lparr>year = 2025, month = 5, day = 1\<rparr>, \<lparr>year = 2025, month = 6, day = 1\<rparr>,
                     \<lparr>year = 2025, month = 7, day = 1\<rparr>, \<lparr>year = 2025, month = 8, day = 1\<rparr>,
                     \<lparr>year = 2025, month = 9, day = 1\<rparr>, \<lparr>year = 2025, month = 10, day = 1\<rparr>,
                     \<lparr>year = 2025, month = 11, day = 1\<rparr>, \<lparr>year = 2025, month = 12, day = 1\<rparr>],
                  forecast_values = ()\<rparr>],
       ending = Completed\<rparr>"
proof -
  let ?df = "\<lparr>columns = [''ORDERDATE'', ''SALES''],
              data_rows = [(Some \<lparr>year = 2024, month = 11, day = 3\<rparr>, 10),
                           (Some \<lparr>year = 2024, month = 12, day = 15\<rparr>, 20)]\<rparr>
             :: (timestamp option, int64) dataframe"
  let ?L = "stub_library ?df (\<lambda>ms. Inr ())"
  let ?raw = "ascii_bytes (''ORDERDATE,SALES'' @ [CHR 0x0A] @ ''2024-11-03,10''
                            @ [CHR 0x0A] @ ''2024-12-15,20'')"
  let ?ms = "[(\<lparr>year = 2024, month = 11, day = 1\<rparr>, 10 :: int64),
              (\<lparr>year = 2024, month = 12, day = 1\<rparr>, 20)]"
  let ?idx = "[\<lparr>year = 2025, month = 1, day = 1\<rparr>, \<lparr>year = 2025, month = 2, day = 1\<rparr>,
               \<lparr>year = 2025, month = 3, day = 1\<rparr>, \<lparr>year = 2025, month = 4, day = 1\<rparr>,
               \<lparr>year = 2025, month = 5, day = 1\<rparr>, \<lparr>year = 2025, month = 6, day = 1\<rparr>,
               \<lparr>year = 2025, month = 7, day = 1\<rparr>, \<lparr>year = 2025, month = 8, day = 1\<rparr>,
               \<lparr>year = 2025, month = 9, day = 1\<rparr>, \<lparr>year = 2025, month = 10, day = 1\<rparr>,
               \<lparr>year = 2025, month = 11, day = 1\<rparr>, \<lparr>year = 2025, month = 12, day = 1\<rparr>]"
  have h1: "read_csv ?L ?raw (choose_encoding (chardet_detect ?L ?raw)) = Inr ?df"
    by (simp add: read_csv_def decode_def choose_encoding_def stub_library_def)
  have h2: "required_cols \<subseteq> set (columns ?df)"
    by (simp add: required_cols_def)
  have h3: "\<forall>r\<in>set (data_rows ?df). \<forall>d. parse_datetime ?L (fst r) = Some d \<longrightarrow> valid_date d"
    by (auto simp: stub_library_def valid_date_def days_in_month_def)
  have h4: "?ms = monthly_sales (column_sum ?L) (parse_datetime ?L) (data_rows ?df)"
    by (simp add: stub_library_def monthly_sales_def groupby_sum_def group_cells_def
        month_column_def coerce_dates_def to_month_def int64_sum_def ts_key_def)
  have h5: "?ms \<noteq> []" by simp
  have h6: "sarimax_fit ?L ?ms = Inr ()"
    by (simp add: stub_library_def)
  have h7: "get_forecast ?L () 12 = Inr ()"
    by (simp add: stub_library_def)
  have h8: "month_ord (fst (last ?ms)) + 12 \<le> last_month ?L"
    by (simp add: stub_library_def month_ord_def)
  have "try_block ?L ?raw
      = forecast_stage ?L (monthly_sales (column_sum ?L) (parse_datetime ?L) (data_rows ?df))
          [St_success,
           St_line_chart (monthly_sales (column_sum ?L) (parse_datetime ?L) (data_rows ?df))]"
    by (simp only: try_block_def h1 sum.case h2 simp_thms if_False)
  then have t: "try_block ?L ?raw = forecast_stage ?L ?ms [St_success, St_line_chart ?ms]"
    by (simp only: h4 [symmetric])
  have f: "forecast_index (last_month ?L) (out_of_bounds ?L) ?ms = Inr ?idx"
    using forecast_of_the_twelve_following_months [where
        n = "last_month ?L - month_ord \<lparr>year = 2025, month = 12, day = 1\<rparr>"
        and msg = "out_of_bounds ?L" and v = "20 :: int64", OF h1 h2 h3 h4 h5 h6 h7 h8,
        THEN conjunct2]
    by (simp add: stub_library_def month_ord_def forecast_index_def index_last_def)
  have fs: "forecast_stage ?L ?ms [St_success, St_line_chart ?ms]
      = ([St_success, St_line_chart ?ms]
           @ [St_write \<lparr>frame_index = ?idx, forecast_values = ()\<rparr>, St_pyplot],
         Inr \<lparr>frame_index = ?idx, forecast_values = ()\<rparr>)"
    by (simp only: forecast_stage_def forecast_steps_def h6 h7 f sum.case)
  have "script ?L (Some ?raw)
      = \<lparr>shown = [St_success, St_line_chart ?ms,
                  St_write \<lparr>frame_index = ?idx, forecast_values = ()\<rparr>, St_pyplot,
                  St_download_button \<lparr>frame_index = ?idx, forecast_values = ()\<rparr>],
         ending = Completed\<rparr>"
    by (simp only: script_def option.case t fs prod.case sum.case download_button_def) simp
  then show ?thesis .
qed

text \<open>
  A successful fit alone does not give the 12 steps. For a series that ends in December
  9999, the last month of a timestamp, line 51 raises and the run shows the generic
  error instead of a forecast. The same happens when the fit succeeds and the forecast
  call raises.
\<close>

theorem no_forecast_near_the_last_timestamp:
  "shown (script (stub_library \<lparr>columns = [''ORDERDATE'', ''SALES''],
                                data_rows = [(Some \<lparr>year = 9999, month = 11, day = 3\<rparr>, 10),
                                             (Some \<lparr>year = 9999, month = 12, day = 15\<rparr>, 20)]\<rparr>
                    (\<lambda>ms. Inr ()))
            (Some (ascii_bytes (''ORDERDATE,SALES'' @ [CHR 0x0A] @ ''9999-11-03,10''
                                  @ [CHR 0x0A] @ ''9999-12-15,20''))))
    = [St_success,
       St_line_chart [(\<lparr>year = 9999, month = 11, day = 1\<rparr>, 10),
                      (\<lparr>year = 9999, month = 12, day = 1\<rparr>, 20)],
       St_error_exception ''timestamp out of range'']
   \<and> shown (script (stub_library \<lparr>columns = [''ORDERDATE'', ''SALES''],
                                data_rows = [(Some \<lparr>year = 2024, month = 11, day = 3\<rparr>, 10),
                                             (Some \<lparr>year = 2024, month = 12, day = 15\<rparr>, 20)]\<rparr>
                    (\<lambda>ms. Inr ())
                  \<lparr>get_forecast := (\<lambda>results steps. Inl ''forecast failed'')\<rparr>)
            (Some (ascii_bytes (''ORDERDATE,SALES'' @ [CHR 0x0A] @ ''2024-11-03,10''
                                  @ [CHR 0x0A] @ ''2024-12-15,20''))))
    = [St_success,
       St_line_chart [(\<lparr>year = 2024, month = 11, day = 1\<rparr>, 10),
                      (\<lparr>year = 2024, month = 12, day = 1\<rparr>, 20)],
       St_error_exception ''forecast failed'']"
  by (simp add: shown_script try_block_def read_csv_def decode_def choose_encoding_def
      stub_library_def required_cols_def forecast_stage_def monthly_sales_def groupby_sum_def
      group_cells_def month_column_def coerce_dates_def to_month_def int64_sum_def ts_key_def
      forecast_index_def index_last_def date_offset_months_def Let_def forecast_steps_def)

end
